theory Spec2Isabelle
  imports Complex_Main "HOL-Library.Multiset"
begin

section \<open>The itinerary planner and the assistant of \<^verbatim>\<open>script.js\<close>\<close>

text \<open>
  JavaScript numbers are modelled as real numbers (\<^typ>\<open>real\<close>) where the source
  computes fractions (scores, \<^verbatim>\<open>perDay * days\<close>, the random draws) and as
  integers (\<^typ>\<open>int\<close>) where it counts (\<^verbatim>\<open>days\<close>, \<^verbatim>\<open>targetCount\<close>,
  \<^verbatim>\<open>idx\<close>). The model is exact arithmetic: \<^verbatim>\<open>Infinity\<close> and \<^verbatim>\<open>NaN\<close>
  do not exist in it, so statements about the pace bonus are made for attractions of
  positive duration, where the source's division has a non-zero divisor.
\<close>

subsection \<open>Data\<close>

text \<open>An entry of \<^verbatim>\<open>ATTRACTIONS\<close>; the field \<^verbatim>\<open>id\<close> is called \<open>aid\<close> here.\<close>

record attraction =
  aid :: int
  name :: string
  tags :: "string list"
  region :: string
  duration :: real
  description :: string

text \<open>The object \<^verbatim>\<open>{...a, score}\<close>: every field of the attraction, and the score.\<close>

record scored = attraction +
  score :: real

text \<open>
  \<^verbatim>\<open>ATTRACTIONS.map\<close> allocates one fresh object per catalog entry, and
  \<^verbatim>\<open>chosen.includes(item)\<close> compares objects by identity, not by content. A pool
  object is therefore a pair of its address and its content; the address of the object
  made for the \<open>i\<close>-th catalog entry is \<open>i\<close>.
\<close>

type_synonym obj = "nat \<times> scored"

record dayplan =
  day :: int
  items :: "obj list"

definition ATTRACTIONS :: "attraction list" where
  "ATTRACTIONS =
    [\<lparr>aid = 1, name = ''Betla National Park'', tags = [''nature'', ''wildlife'', ''adventure''],
       region = ''Palamu'', duration = 1, description = ''Tigers, forests, safari.''\<rparr>,
     \<lparr>aid = 2, name = ''Ranchi - Hundru Falls'', tags = [''nature'', ''adventure''],
       region = ''Ranchi'', duration = 1 / 2, description = ''Scenic waterfall and picnic area.''\<rparr>,
     \<lparr>aid = 3, name = ''Deo Surya Mandir (Deoghar)'', tags = [''culture'', ''history''],
       region = ''Deoghar'', duration = 1, description = ''Famous Sun temple and pilgrimage site.''\<rparr>,
     \<lparr>aid = 4, name = ''Hill Top (Netarhat)'', tags = [''nature'', ''relaxation''],
       region = ''Latehar'', duration = 1, description = ''Sunrise viewpoint and quiet hills.''\<rparr>,
     \<lparr>aid = 5, name = ''Jonha Falls'', tags = [''nature'', ''adventure''],
       region = ''Ranchi'', duration = 3 / 4, description = ''Waterfall with scenic steps.''\<rparr>,
     \<lparr>aid = 6, name = ''Hazaribagh Wildlife Sanctuary'', tags = [''wildlife'', ''nature''],
       region = ''Hazaribagh'', duration = 3 / 2, description = ''Wildlife, birds, forests.''\<rparr>,
     \<lparr>aid = 7, name = ''Stone Age Cave Sites (Isko/Peer)'', tags = [''history'', ''culture''],
       region = ''Palamu'', duration = 1, description = ''Prehistoric rock art & archaeology.''\<rparr>]"

subsection \<open>Library functions of the language\<close>

text \<open>\<^verbatim>\<open>Math.round\<close>: the nearest integer, a tie going up.\<close>

definition js_round :: "real \<Rightarrow> int" where
  "js_round x = \<lfloor>x + 1 / 2\<rfloor>"

text \<open>
  \<^verbatim>\<open>Array.prototype.sort\<close> with a comparator: ECMAScript requires a stable sort.
  It is modelled as insertion sort, where an element goes in front of the first one that
  the comparator does not put before it (\<^verbatim>\<open>cmp(x, y) <= 0\<close>).
\<close>

fun js_insort :: "('a \<Rightarrow> 'a \<Rightarrow> real) \<Rightarrow> 'a \<Rightarrow> 'a list \<Rightarrow> 'a list" where
  "js_insort cmp x [] = [x]"
| "js_insort cmp x (y # ys) = (if cmp x y \<le> 0 then x # y # ys else y # js_insort cmp x ys)"

fun js_sort :: "('a \<Rightarrow> 'a \<Rightarrow> real) \<Rightarrow> 'a list \<Rightarrow> 'a list" where
  "js_sort cmp [] = []"
| "js_sort cmp (x # xs) = js_insort cmp x (js_sort cmp xs)"

text \<open>\<^verbatim>\<open>Array.prototype.slice(start, end)\<close>, with its treatment of negative and
  too large indices.\<close>

definition slice :: "'a list \<Rightarrow> int \<Rightarrow> int \<Rightarrow> 'a list" where
  "slice xs start fin =
    (let len = int (length xs);
         k = (if start < 0 then max (len + start) 0 else min start len);
         f = (if fin < 0 then max (len + fin) 0 else min fin len)
     in take (nat (f - k)) (drop (nat k) xs))"

text \<open>\<^verbatim>\<open>chosen.includes(item)\<close> on objects: is an object of the same address there?\<close>

definition includes_obj :: "obj list \<Rightarrow> obj \<Rightarrow> bool" where
  "includes_obj chosen item = (fst item \<in> set (map fst chosen))"

subsection \<open>\<^verbatim>\<open>simulateItinerary\<close>\<close>

text \<open>
  The body of the \<^verbatim>\<open>map\<close> callback. \<^verbatim>\<open>tags\<close> is a \<^verbatim>\<open>Set\<close>, iterated in
  insertion order: a list here, without repetition when it comes from a \<^verbatim>\<open>Set\<close>.
\<close>

definition score_of :: "string list \<Rightarrow> string \<Rightarrow> attraction \<Rightarrow> real" where
  "score_of tgs pace a =
    (let s0 = (if length tgs = 0 then 1 else 0);
         s1 = fold (\<lambda>t s. if t \<in> set (tags a) then s + 2 else s) tgs s0
     in if pace = ''busy'' then s1 + 1 / (duration a + 1 / 10) else s1)"

definition with_score :: "string list \<Rightarrow> string \<Rightarrow> attraction \<Rightarrow> scored" where
  "with_score tgs pace a = attraction.extend a (scored.fields (score_of tgs pace a))"

definition pool :: "attraction list \<Rightarrow> string list \<Rightarrow> string \<Rightarrow> obj list" where
  "pool catalog tgs pace = map (\<lambda>(i, a). (i, with_score tgs pace a)) (enumerate 0 catalog)"

text \<open>\<^verbatim>\<open>pool.sort((p,q)=>q.score - p.score)\<close>\<close>

definition by_score :: "obj \<Rightarrow> obj \<Rightarrow> real" where
  "by_score p q = score (snd q) - score (snd p)"

definition ranked :: "attraction list \<Rightarrow> string list \<Rightarrow> string \<Rightarrow> obj list" where
  "ranked catalog tgs pace = js_sort by_score (pool catalog tgs pace)"

definition perDay :: "string \<Rightarrow> real" where
  "perDay pace = (if pace = ''relaxed'' then 12 / 10 else if pace = ''busy'' then 3 else 2)"

definition targetCount :: "string \<Rightarrow> int \<Rightarrow> int" where
  "targetCount pace days = max 1 (js_round (perDay pace * of_int days))"

text \<open>
  The loop that picks with region diversity. The state is \<^verbatim>\<open>chosen\<close>, \<^verbatim>\<open>regions\<close>
  and the number of calls of \<^verbatim>\<open>Math.random\<close> made so far; the \<open>k\<close>-th call returns
  \<open>rnd k\<close>. The source calls \<^verbatim>\<open>Math.random\<close> only when the region is already in
  \<^verbatim>\<open>regions\<close> (\<^verbatim>\<open>||\<close> evaluates its right operand only then).
\<close>

fun pick :: "int \<Rightarrow> (nat \<Rightarrow> real) \<Rightarrow> obj list \<Rightarrow> obj list \<times> string set \<times> nat \<Rightarrow>
    obj list \<times> string set \<times> nat" where
  "pick tc rnd [] st = st"
| "pick tc rnd (item # rest) (chosen, regions, k) =
    (if int (length chosen) \<ge> tc then (chosen, regions, k)
     else if region (snd item) \<notin> regions
       then pick tc rnd rest (chosen @ [item], insert (region (snd item)) regions, k)
     else if rnd k > 6 / 10
       then pick tc rnd rest (chosen @ [item], insert (region (snd item)) regions, Suc k)
     else pick tc rnd rest (chosen, regions, Suc k))"

text \<open>The fallback fill.\<close>

fun fill :: "int \<Rightarrow> obj list \<Rightarrow> obj list \<Rightarrow> obj list" where
  "fill tc [] chosen = chosen"
| "fill tc (item # rest) chosen =
    (if int (length chosen) \<ge> tc then chosen
     else if \<not> includes_obj chosen item then fill tc rest (chosen @ [item])
     else fill tc rest chosen)"

definition chosen_of :: "attraction list \<Rightarrow> (nat \<Rightarrow> real) \<Rightarrow> int \<Rightarrow> string list \<Rightarrow> string \<Rightarrow> obj list" where
  "chosen_of catalog rnd days tgs pace =
    (let pl = ranked catalog tgs pace;
         tc = targetCount pace days
     in fill tc pl (fst (pick tc rnd pl ([], {}, 0))))"

text \<open>The loop that builds the day-wise plan; its state is \<^verbatim>\<open>d\<close>, \<^verbatim>\<open>idx\<close> and
  \<^verbatim>\<open>plan\<close>.\<close>

function build :: "int \<Rightarrow> int \<Rightarrow> obj list \<Rightarrow> int \<Rightarrow> int \<Rightarrow> dayplan list \<Rightarrow> dayplan list" where
  "build days tc chosen d idx plan =
    (if d \<le> days then
       (let daySlots = max 1 (js_round (of_int tc / of_int days));
            dayItems = slice chosen idx (idx + daySlots)
        in build days tc chosen (d + 1) (idx + daySlots) (plan @ [\<lparr>day = d, items = dayItems\<rparr>]))
     else plan)"
  by pat_completeness auto
termination
  by (relation "measure (\<lambda>(days, tc, chosen, d, idx, plan). nat (days + 1 - d))") auto

declare build.simps [simp del]

definition simulateItinerary ::
    "attraction list \<Rightarrow> (nat \<Rightarrow> real) \<Rightarrow> int \<Rightarrow> string list \<Rightarrow> string \<Rightarrow> dayplan list" where
  "simulateItinerary catalog rnd days tgs pace =
    build days (targetCount pace days) (chosen_of catalog rnd days tgs pace) 1 0 []"

text \<open>The value of \<^verbatim>\<open>daySlots\<close>, the same in every round of the day loop.\<close>

definition daySlots :: "int \<Rightarrow> int \<Rightarrow> int" where
  "daySlots tc days = max 1 (js_round (of_int tc / of_int days))"

text \<open>
  A source of draws for examples: \<^verbatim>\<open>Math.random\<close> returns 0 at every call, so a
  candidate whose region repeats is always skipped by the diversity pass.
\<close>

definition draws0 :: "nat \<Rightarrow> real" where
  "draws0 k = 0"

text \<open>
  The order the ranking is shown to produce: a higher score first, and among equal scores
  the object of the earlier catalog entry first.
\<close>

definition before :: "obj \<Rightarrow> obj \<Rightarrow> bool" where
  "before p q = (score (snd p) > score (snd q) \<or> (score (snd p) = score (snd q) \<and> fst p < fst q))"

subsection \<open>\<^verbatim>\<open>assistantRespond\<close>\<close>

text \<open>
  Strings are lists of characters. \<^verbatim>\<open>toLowerCase\<close> is modelled on the letters
  \<^verbatim>\<open>A\<close> to \<^verbatim>\<open>Z\<close>; every other character is left as it is.
\<close>

definition lower_char :: "char \<Rightarrow> char" where
  "lower_char c =
    (case map_of (zip ''ABCDEFGHIJKLMNOPQRSTUVWXYZ'' ''abcdefghijklmnopqrstuvwxyz'') c of
       Some l \<Rightarrow> l
     | None \<Rightarrow> c)"

definition toLowerCase :: "string \<Rightarrow> string" where
  "toLowerCase text = map lower_char text"

text \<open>\<^verbatim>\<open>String.prototype.includes\<close>: does \<open>sub\<close> occur in \<open>s\<close> as a contiguous
  run of characters? \<open>starts_with s sub\<close> tests the occurrence at the front.\<close>

fun starts_with :: "string \<Rightarrow> string \<Rightarrow> bool" where
  "starts_with s [] = True"
| "starts_with [] (c # sub) = False"
| "starts_with (x # s) (c # sub) = (x = c \<and> starts_with s sub)"

fun includes_str :: "string \<Rightarrow> string \<Rightarrow> bool" where
  "includes_str [] sub = (sub = [])"
| "includes_str (x # s) sub = (starts_with (x # s) sub \<or> includes_str s sub)"

text \<open>The six reply texts of the source.\<close>

definition reply_fallback :: string where
  "reply_fallback = ''I'm sorry, I didn't get that. You can ask for 'itinerary', 'attractions', or 'help'.''"

definition reply_itinerary :: string where
  "reply_itinerary = ''To generate an itinerary, choose days, interests and click 'Generate itinerary'. I can also suggest a 3-day nature-focused plan.''"

definition reply_attractions :: string where
  "reply_attractions = ''I can show popular attractions like Betla National Park, Hundru Falls, Deoghar Sun Temple. Tell me your interest to refine.''"

definition reply_greeting :: string where
  "reply_greeting = ''Hello! How can I help you plan your trip to Jharkhand?''"

definition reply_farewell :: string where
  "reply_farewell = ''You're welcome! Have a great trip.''"

definition reply_suggest :: string where
  "reply_suggest = ''Suggesting a nature-focused 2-day plan: Day 1 - Betla National Park; Day 2 - Hundru Falls & Netarhat sunrise spot.''"

text \<open>The value of the variable \<^verbatim>\<open>reply\<close> after the chain of conditionals.\<close>

definition reply_of :: "string \<Rightarrow> string" where
  "reply_of text =
    (let normalized = toLowerCase text
     in if includes_str normalized ''itinerary'' then reply_itinerary
        else if includes_str normalized ''attraction'' \<or> includes_str normalized ''attractions''
          then reply_attractions
        else if includes_str normalized ''hello'' \<or> includes_str normalized ''hi''
          then reply_greeting
        else if includes_str normalized ''bye'' \<or> includes_str normalized ''thanks''
          then reply_farewell
        else if includes_str normalized ''suggest'' then reply_suggest
        else reply_fallback)"

text \<open>
  \<^verbatim>\<open>assistantRespond\<close> returns nothing; it writes the reply into the page and hands
  it to \<^verbatim>\<open>speakText\<close>. The model returns both effects: the new \<^verbatim>\<open>innerHTML\<close> of
  the response element, and in \<open>spoken\<close> the two arguments of the call of \<^verbatim>\<open>speakText\<close>,
  the text to speak and the locale.
\<close>

record response =
  innerHTML :: string
  spoken :: "string \<times> string"

definition assistantRespond :: "string \<Rightarrow> string \<Rightarrow> response" where
  "assistantRespond text locale =
    (let reply = reply_of text
     in \<lparr>innerHTML = ''<strong>Assistant ('' @ locale @ ''):</strong> '' @ reply,
         spoken = (reply, locale)\<rparr>)"



section \<open>Properties\<close>

subsection \<open>Rounding and the target count\<close>

lemma js_round_of_int: "js_round (of_int n) = n"
  unfolding js_round_def by linarith

lemma js_round_nearest: "of_int (js_round x) - 1 / 2 \<le> x \<and> x < of_int (js_round x) + 1 / 2"
  unfolding js_round_def by linarith

lemma js_round_relaxed: "js_round (12 / 10 * of_int d) = (12 * d + 5) div 10"
proof -
  have "12 / 10 * (of_int d :: real) + 1 / 2 = of_int (12 * d + 5) / of_int 10"
    by simp
  then show ?thesis
    unfolding js_round_def by (simp only: floor_divide_of_int_eq)
qed

text \<open>
  In floating point \<^verbatim>\<open>1.2 * days\<close> is not exactly six fifths of \<^verbatim>\<open>days\<close>, but the
  exact product is never closer than a tenth to a tie of \<^verbatim>\<open>Math.round\<close>, so a
  rounding error below a tenth cannot change the result.
\<close>

lemma js_round_relaxed_margin:
  "\<bar>12 / 10 * of_int d - of_int (js_round (12 / 10 * of_int d))\<bar> \<le> (4 / 10 :: real)"
proof -
  let ?n = "(12 * d + 5) div 10"
  have "10 * ?n - 4 \<le> 12 * d \<and> 12 * d \<le> 10 * ?n + 4"
    by presburger
  then have "real_of_int (10 * ?n - 4) \<le> real_of_int (12 * d)
      \<and> real_of_int (12 * d) \<le> real_of_int (10 * ?n + 4)"
    by (simp only: of_int_le_iff)
  then have b: "10 * real_of_int ?n - 4 \<le> 12 * real_of_int d"
      "12 * real_of_int d \<le> 10 * real_of_int ?n + 4"
    by simp_all
  have "12 / 10 * real_of_int d - real_of_int ?n \<le> 4 / 10"
    using b by linarith
  moreover have "- (12 / 10 * real_of_int d - real_of_int ?n) \<le> 4 / 10"
    using b by linarith
  ultimately show ?thesis
    unfolding js_round_relaxed by (rule abs_leI)
qed

text \<open>
  C5. \<^verbatim>\<open>targetCount\<close> is the maximum of 1 and \<^verbatim>\<open>Math.round(perDay * days)\<close>, where
  \<^verbatim>\<open>perDay\<close> is 1.2 for the pace \<^verbatim>\<open>relaxed\<close>, 3 for \<^verbatim>\<open>busy\<close> and 2 for
  \<^verbatim>\<open>moderate\<close> and for every other pace. In closed form it is the maximum of 1 and
  \<open>(12 * days + 5) div 10\<close>, \<open>3 * days\<close> and \<open>2 * days\<close> respectively, and it is at
  least 1 for every integer \<^verbatim>\<open>days\<close>.
\<close>

theorem C5_targetCount:
  "targetCount pace days = max 1 (js_round (perDay pace * of_int days))
   \<and> perDay ''relaxed'' = 12 / 10 \<and> perDay ''busy'' = 3 \<and> perDay ''moderate'' = 2
   \<and> (pace \<noteq> ''relaxed'' \<and> pace \<noteq> ''busy'' \<longrightarrow> perDay pace = perDay ''moderate'')
   \<and> targetCount ''relaxed'' days = max 1 ((12 * days + 5) div 10)
   \<and> targetCount ''busy'' days = max 1 (3 * days)
   \<and> (pace \<noteq> ''relaxed'' \<and> pace \<noteq> ''busy'' \<longrightarrow> targetCount pace days = max 1 (2 * days))
   \<and> 1 \<le> targetCount pace days"
proof -
  have b: "js_round (3 * of_int days) = 3 * days"
    using js_round_of_int [of "3 * days"] by simp
  have m: "js_round (2 * of_int days) = 2 * days"
    using js_round_of_int [of "2 * days"] by simp
  have r: "js_round (6 * of_int days / 5) = (12 * days + 5) div 10"
    using js_round_relaxed [of days] by simp
  show ?thesis
    by (simp add: targetCount_def perDay_def r b m)
qed

theorem C5_targetCount_witness:
  "''brisk'' \<noteq> ''relaxed'' \<and> ''brisk'' \<noteq> ''busy'' \<and> perDay ''brisk'' = 2
   \<and> targetCount ''brisk'' 3 = 6 \<and> targetCount ''relaxed'' 3 = 4 \<and> targetCount ''busy'' 0 = 1"
  using C5_targetCount [of "''brisk''" 3] C5_targetCount [of "''busy''" 0]
  by (simp add: js_round_def)

subsection \<open>Scoring\<close>

lemma fold_score:
  "fold (\<lambda>t s. if t \<in> A then s + 2 else s) tgs (s0 :: real)
     = s0 + 2 * of_nat (length (filter (\<lambda>t. t \<in> A) tgs))"
  by (induction tgs arbitrary: s0) (simp_all add: algebra_simps)

lemma score_of_formula:
  "score_of tgs pace a =
     (if tgs = [] then 1 else 0)
       + 2 * of_nat (length (filter (\<lambda>t. t \<in> set (tags a)) tgs))
       + (if pace = ''busy'' then 1 / (duration a + 1 / 10) else 0)"
  by (simp add: score_of_def Let_def fold_score)

lemma pool_length: "length (pool catalog tgs pace) = length catalog"
  by (simp add: pool_def)

lemma pool_nth:
  "i < length catalog \<Longrightarrow> pool catalog tgs pace ! i = (i, with_score tgs pace (catalog ! i))"
  by (simp add: pool_def nth_enumerate_eq)

lemma score_with_score: "score (with_score tgs pace a) = score_of tgs pace a"
  by (simp add: with_score_def attraction.defs scored.defs)

lemma aid_with_score: "aid (with_score tgs pace a) = aid a"
  by (simp add: with_score_def attraction.defs scored.defs)

lemma region_with_score: "region (with_score tgs pace a) = region a"
  by (simp add: with_score_def attraction.defs scored.defs)

lemma region_pool:
  "i < length catalog \<Longrightarrow> region (snd (pool catalog tgs pace ! i)) = region (catalog ! i)"
  by (simp add: pool_nth region_with_score)

lemma map_fst_pool: "map fst (pool catalog tgs pace) = [0..<length catalog]"
  by (rule nth_equalityI) (simp_all add: pool_length pool_nth)

lemma map_aid_pool: "map (\<lambda>p. aid (snd p)) (pool catalog tgs pace) = map aid catalog"
  by (rule nth_equalityI) (simp_all add: pool_length pool_nth aid_with_score)

text \<open>
  C1. For requested tags without repetition (a \<^verbatim>\<open>Set\<close>) and an attraction of positive
  duration, the score is 1 if no tag is requested and 0 otherwise, plus 2 for each requested
  tag that the attraction carries, plus \<open>1 / (duration + 0.1)\<close> if the pace is
  \<^verbatim>\<open>busy\<close>; this is the score of the pool object made for the attraction. With tags
  requested and none of them matching, the score is the pace bonus alone. When the pace is
  not \<^verbatim>\<open>busy\<close> that is 0, strictly below the score 1 that every attraction has when no
  tag is requested. When the pace is \<^verbatim>\<open>busy\<close> it is strictly below the score, 1 plus the
  same bonus, that the same attraction has when no tag is requested, and it is below 1
  exactly when the duration is above 0.9.
\<close>

theorem C1_score_amended:
  assumes "distinct tgs" and "0 < duration a"
  shows "score_of tgs pace a =
           (if tgs = [] then 1 else 0)
             + 2 * of_nat (card {t \<in> set tgs. t \<in> set (tags a)})
             + (if pace = ''busy'' then 1 / (duration a + 1 / 10) else 0)
         \<and> (\<forall>i < length catalog. catalog ! i = a \<longrightarrow>
               score (snd (pool catalog tgs pace ! i)) = score_of tgs pace a)
         \<and> score_of [] pace a = 1 + (if pace = ''busy'' then 1 / (duration a + 1 / 10) else 0)
         \<and> (tgs \<noteq> [] \<and> set tgs \<inter> set (tags a) = {} \<longrightarrow>
               score_of tgs pace a = (if pace = ''busy'' then 1 / (duration a + 1 / 10) else 0)
               \<and> score_of tgs pace a < score_of [] pace a
               \<and> (pace \<noteq> ''busy'' \<longrightarrow> score_of tgs pace a = 0 \<and> score_of [] pace b = 1)
               \<and> (pace = ''busy'' \<longrightarrow> (score_of tgs pace a < 1 \<longleftrightarrow> 9 / 10 < duration a)))"
proof -
  have len: "length (filter (\<lambda>t. t \<in> set (tags a)) tgs) = card {t \<in> set tgs. t \<in> set (tags a)}"
    using assms(1) distinct_length_filter [of tgs "\<lambda>t. t \<in> set (tags a)"]
    by (simp add: Int_def conj_commute)
  have none: "filter (\<lambda>t. t \<in> set (tags a)) tgs = []" if "set tgs \<inter> set (tags a) = {}"
    using that by (auto simp: filter_empty_conv)
  have formula: "score_of tgs pace a =
           (if tgs = [] then 1 else 0)
             + 2 * of_nat (card {t \<in> set tgs. t \<in> set (tags a)})
             + (if pace = ''busy'' then 1 / (duration a + 1 / 10) else 0)"
    by (simp add: score_of_formula len [symmetric])
  have obj: "\<forall>i < length catalog. catalog ! i = a \<longrightarrow>
               score (snd (pool catalog tgs pace ! i)) = score_of tgs pace a"
    by (simp add: pool_nth score_with_score)
  have neutral: "score_of [] p c = 1 + (if p = ''busy'' then 1 / (duration c + 1 / 10) else 0)" for p c
    by (simp add: score_of_formula)
  have bonus: "1 / (duration a + 1 / 10) < 1 \<longleftrightarrow> 9 / 10 < duration a"
  proof -
    have "0 < duration a + 1 / 10"
      using assms(2) by simp
    then have "1 / (duration a + 1 / 10) < 1 \<longleftrightarrow> 1 < duration a + 1 / 10"
      by (simp add: divide_less_eq)
    then show ?thesis by auto
  qed
  have zero: "score_of tgs pace a = (if pace = ''busy'' then 1 / (duration a + 1 / 10) else 0)"
    if "tgs \<noteq> []" "set tgs \<inter> set (tags a) = {}"
    using that by (simp add: score_of_formula none)
  have part: "score_of tgs pace a = (if pace = ''busy'' then 1 / (duration a + 1 / 10) else 0)
               \<and> score_of tgs pace a < score_of [] pace a
               \<and> (pace \<noteq> ''busy'' \<longrightarrow> score_of tgs pace a = 0 \<and> score_of [] pace b = 1)
               \<and> (pace = ''busy'' \<longrightarrow> (score_of tgs pace a < 1 \<longleftrightarrow> 9 / 10 < duration a))"
    if "tgs \<noteq> []" "set tgs \<inter> set (tags a) = {}"
    using zero [OF that] bonus by (cases "pace = ''busy''") (simp_all add: neutral)
  show ?thesis
    using formula obj neutral [of pace a] part by blast
qed

theorem C1_score_amended_witness:
  "distinct [''culture''] \<and> 0 < duration (ATTRACTIONS ! 0)
   \<and> [''culture''] \<noteq> [] \<and> set [''culture''] \<inter> set (tags (ATTRACTIONS ! 0)) = {}
   \<and> score_of [''culture''] ''busy'' (ATTRACTIONS ! 0) = 10 / 11
   \<and> score_of [] ''busy'' (ATTRACTIONS ! 0) = 21 / 11
   \<and> score_of [''culture''] ''busy'' (ATTRACTIONS ! 0) < score_of [] ''busy'' (ATTRACTIONS ! 0)
   \<and> score_of [''culture''] ''busy'' (ATTRACTIONS ! 0) < 1
   \<and> score_of [''culture''] ''moderate'' (ATTRACTIONS ! 0) = 0
   \<and> score_of [] ''moderate'' (ATTRACTIONS ! 5) = 1
   \<and> score (snd (pool ATTRACTIONS [''culture''] ''busy'' ! 0)) = 10 / 11"
proof -
  have a: "distinct [''culture'']" and b: "0 < duration (ATTRACTIONS ! 0)"
    and c: "set [''culture''] \<inter> set (tags (ATTRACTIONS ! 0)) = {}"
    and d: "0 < length ATTRACTIONS"
    by (simp_all add: ATTRACTIONS_def)
  have e: "duration (ATTRACTIONS ! 0) = 1"
    by (simp add: ATTRACTIONS_def)
  have busy: "score_of [''culture''] ''busy'' (ATTRACTIONS ! 0) = 10 / 11
      \<and> score_of [] ''busy'' (ATTRACTIONS ! 0) = 21 / 11
      \<and> score_of [''culture''] ''busy'' (ATTRACTIONS ! 0) < score_of [] ''busy'' (ATTRACTIONS ! 0)
      \<and> score_of [''culture''] ''busy'' (ATTRACTIONS ! 0) < 1
      \<and> score (snd (pool ATTRACTIONS [''culture''] ''busy'' ! 0)) = 10 / 11"
    using C1_score_amended [OF a b, of "''busy''" ATTRACTIONS] c d
    by (simp add: e)
  have calm: "score_of [''culture''] ''moderate'' (ATTRACTIONS ! 0) = 0
      \<and> score_of [] ''moderate'' (ATTRACTIONS ! 5) = 1"
    using C1_score_amended [OF a b, of "''moderate''" ATTRACTIONS "ATTRACTIONS ! 5"] c
    by simp
  show ?thesis
    using a b c busy calm by simp
qed

text \<open>
  At the pace \<^verbatim>\<open>busy\<close> a score without a match is not always below 1, nor below every
  score without requested tags: on the sample catalog with the tag \<^verbatim>\<open>culture\<close>
  requested, attraction 2 (half a day, no matching tag) scores 5/3, while attraction 6 (a
  day and a half) scores 13/8 when no tag is requested.
\<close>

theorem C1_counterexample:
  "distinct [''culture''] \<and> [''culture''] \<noteq> []
   \<and> set [''culture''] \<inter> set (tags (ATTRACTIONS ! 1)) = {}
   \<and> 0 < duration (ATTRACTIONS ! 1)
   \<and> score_of [''culture''] ''busy'' (ATTRACTIONS ! 1) = 5 / 3
   \<and> score_of [] ''busy'' (ATTRACTIONS ! 5) = 13 / 8
   \<and> \<not> score_of [''culture''] ''busy'' (ATTRACTIONS ! 1) < 1
   \<and> \<not> score_of [''culture''] ''busy'' (ATTRACTIONS ! 1) < score_of [] ''busy'' (ATTRACTIONS ! 5)"
proof -
  have s1: "score_of [''culture''] ''busy'' (ATTRACTIONS ! 1) = 5 / 3"
    by (simp add: score_of_formula ATTRACTIONS_def)
  have s5: "score_of [] ''busy'' (ATTRACTIONS ! 5) = 13 / 8"
    by (simp add: score_of_formula ATTRACTIONS_def)
  have h: "set [''culture''] \<inter> set (tags (ATTRACTIONS ! 1)) = {}" "0 < duration (ATTRACTIONS ! 1)"
    by (simp_all add: ATTRACTIONS_def)
  show ?thesis
    unfolding s1 s5 using h by simp
qed

subsection \<open>Ranking\<close>

lemma mset_js_insort: "mset (js_insort cmp x ys) = add_mset x (mset ys)"
  by (induction ys) simp_all

lemma mset_js_sort: "mset (js_sort cmp xs) = mset xs"
  by (induction xs) (simp_all add: mset_js_insort)

lemma set_js_insort: "set (js_insort cmp x ys) = insert x (set ys)"
  by (induction ys) auto

lemma set_js_sort: "set (js_sort cmp xs) = set xs"
  by (induction xs) (simp_all add: set_js_insort)

lemma length_js_sort: "length (js_sort cmp xs) = length xs"
  using mset_js_sort [of cmp xs] by (metis size_mset)

lemma sorted_js_insort:
  "sorted_wrt before ys \<Longrightarrow> \<forall>z \<in> set ys. fst x < fst z \<Longrightarrow>
     sorted_wrt before (js_insort by_score x ys)"
proof (induction ys)
  case Nil
  then show ?case by simp
next
  case (Cons y ys)
  show ?case
  proof (cases "by_score x y \<le> 0")
    case True
    then have xy: "score (snd y) \<le> score (snd x)"
      by (simp add: by_score_def)
    have "before x z" if "z \<in> set (y # ys)" for z
    proof -
      have "score (snd z) \<le> score (snd y)"
        using that Cons.prems(1) by (auto simp: before_def)
      with xy Cons.prems(2) that show ?thesis
        by (auto simp: before_def)
    qed
    with True Cons.prems(1) show ?thesis by simp
  next
    case False
    then have "before y x"
      by (simp add: by_score_def before_def)
    with False Cons show ?thesis
      by (auto simp: set_js_insort)
  qed
qed

lemma sorted_js_sort:
  "sorted_wrt (<) (map fst xs) \<Longrightarrow> sorted_wrt before (js_sort by_score xs)"
proof (induction xs)
  case Nil
  then show ?case by simp
next
  case (Cons x xs)
  then show ?case
    by (auto intro!: sorted_js_insort simp: set_js_sort)
qed

lemma filter_js_insort_other:
  "\<not> P x \<Longrightarrow> filter P (js_insort cmp x ys) = filter P ys"
  by (induction ys) simp_all

lemma filter_js_insort_same:
  "sorted_wrt (\<lambda>p q. score (snd q) \<le> score (snd p)) ys \<Longrightarrow>
   filter (\<lambda>p. score (snd p) = score (snd x)) (js_insort by_score x ys)
     = x # filter (\<lambda>p. score (snd p) = score (snd x)) ys"
proof (induction ys)
  case Nil
  then show ?case by simp
next
  case (Cons y ys)
  then show ?case by (auto simp: by_score_def)
qed

lemma desc_js_insort:
  "sorted_wrt (\<lambda>p q. score (snd q) \<le> score (snd p)) ys \<Longrightarrow>
   sorted_wrt (\<lambda>p q. score (snd q) \<le> score (snd p)) (js_insort by_score x ys)"
  by (induction ys) (auto simp: by_score_def set_js_insort)

lemma desc_js_sort: "sorted_wrt (\<lambda>p q. score (snd q) \<le> score (snd p)) (js_sort by_score xs)"
  by (induction xs) (simp_all add: desc_js_insort)

lemma stable_js_sort:
  "filter (\<lambda>p. score (snd p) = s) (js_sort by_score xs) = filter (\<lambda>p. score (snd p) = s) xs"
proof (induction xs)
  case Nil
  then show ?case by simp
next
  case (Cons x xs)
  show ?case
  proof (cases "score (snd x) = s")
    case True
    then show ?thesis
      using filter_js_insort_same [OF desc_js_sort, of x xs] Cons.IH by auto
  next
    case False
    then show ?thesis
      using Cons.IH by (simp add: filter_js_insort_other)
  qed
qed

lemma ranked_length: "length (ranked catalog tgs pace) = length catalog"
  by (simp add: ranked_def length_js_sort pool_length)

lemma ranked_set: "set (ranked catalog tgs pace) = set (pool catalog tgs pace)"
  by (simp add: ranked_def set_js_sort)

lemma ranked_distinct: "distinct (map fst (ranked catalog tgs pace))"
proof -
  have "mset (map fst (ranked catalog tgs pace)) = mset (map fst (pool catalog tgs pace))"
    unfolding ranked_def by (simp add: mset_js_sort)
  moreover have "distinct (map fst (pool catalog tgs pace))"
    by (simp add: map_fst_pool)
  ultimately show ?thesis
    by (metis mset_eq_imp_distinct_iff)
qed

text \<open>
  C9. The ranked list is the pool in descending order of score: it has the objects of the
  pool, each as often as the pool, scores never increase along it, and the objects of any
  one score stand in it in the order they have in the pool, which is the order of the
  catalog. So the ranked list is ordered by \<open>before\<close>: score descending, and catalog
  position ascending among equal scores. Scoring and ranking take no random draw.
\<close>

theorem C9_ranking:
  "sorted_wrt (\<lambda>p q. score (snd q) \<le> score (snd p)) (ranked catalog tgs pace)
   \<and> mset (ranked catalog tgs pace) = mset (pool catalog tgs pace)
   \<and> filter (\<lambda>p. score (snd p) = s) (ranked catalog tgs pace)
        = filter (\<lambda>p. score (snd p) = s) (pool catalog tgs pace)
   \<and> map fst (pool catalog tgs pace) = [0..<length catalog]
   \<and> sorted_wrt before (ranked catalog tgs pace)"
proof -
  have "sorted_wrt (<) (map fst (pool catalog tgs pace))"
    by (simp add: map_fst_pool)
  then show ?thesis
    unfolding ranked_def
    by (simp add: desc_js_sort mset_js_sort stable_js_sort map_fst_pool sorted_js_sort)
qed

subsection \<open>The diversity pass\<close>

lemma pick_stopped:
  "tc \<le> int (length chosen) \<Longrightarrow> pick tc rnd pl (chosen, regions, k) = (chosen, regions, k)"
  by (cases pl) simp_all

lemma pick_append:
  "pick tc rnd (xs @ ys) st = pick tc rnd ys (pick tc rnd xs st)"
proof (induction tc rnd xs st rule: pick.induct)
  case (1 tc rnd st)
  then show ?case by simp
next
  case (2 tc rnd item rest chosen regions k)
  then show ?case by (simp add: pick_stopped)
qed

lemma pick_regions:
  "fst (snd st) = (\<lambda>p. region (snd p)) ` set (fst st) \<Longrightarrow>
   fst (snd (pick tc rnd pl st)) = (\<lambda>p. region (snd p)) ` set (fst (pick tc rnd pl st))"
  by (induction tc rnd pl st rule: pick.induct) auto

lemma pick_length:
  "int (length (fst st)) \<le> tc \<Longrightarrow> int (length (fst (pick tc rnd pl st))) \<le> tc"
  by (induction tc rnd pl st rule: pick.induct) auto

lemma pick_distinct:
  "distinct (map fst (fst st @ pl)) \<Longrightarrow>
   distinct (map fst (fst (pick tc rnd pl st))) \<and> set (fst (pick tc rnd pl st)) \<subseteq> set (fst st) \<union> set pl"
proof (induction tc rnd pl st rule: pick.induct)
  case (1 tc rnd st)
  then show ?case by simp
next
  case (2 tc rnd item rest chosen regions k)
  have keep: "distinct (map fst (chosen @ rest))" and add: "distinct (map fst ((chosen @ [item]) @ rest))"
    using "2.prems" by auto
  show ?case
    using "2.IH" keep add "2.prems" by (simp; blast)
qed

text \<open>
  C3. Let the pass have walked the candidates \<open>pre\<close> of the ranked list, with \<open>ch\<close>
  accepted, \<open>rs\<close> in \<^verbatim>\<open>regions\<close> and \<open>k\<close> draws made. Then \<open>rs\<close> is the set of the
  regions of the accepted objects, and the next candidate \<open>c\<close> is appended exactly when
  fewer than \<^verbatim>\<open>targetCount\<close> are accepted and either its region differs from the region
  of every accepted object or the draw made for it, \<open>rnd k\<close>, exceeds 0.6; it is left out
  otherwise. A draw is made for \<open>c\<close> only when its region repeats. Once \<^verbatim>\<open>targetCount\<close>
  are accepted, the remaining candidates change nothing and cost no draw, and the pass
  ends with the list.
\<close>

theorem C3_diverse_pass:
  assumes "pick tc rnd pre ([], {}, 0) = (ch, rs, k)"
  shows "rs = (\<lambda>p. region (snd p)) ` set ch
    \<and> pick tc rnd (pre @ [c]) ([], {}, 0)
        = (if int (length ch) < tc \<and> (\<forall>a \<in> set ch. region (snd a) \<noteq> region (snd c))
             then (ch @ [c], insert (region (snd c)) rs, k)
           else if int (length ch) < tc \<and> rnd k > 6 / 10
             then (ch @ [c], insert (region (snd c)) rs, Suc k)
           else if int (length ch) < tc then (ch, rs, Suc k)
           else (ch, rs, k))
    \<and> (fst (pick tc rnd (pre @ [c]) ([], {}, 0)) = ch @ [c]
         \<longleftrightarrow> int (length ch) < tc
             \<and> ((\<forall>a \<in> set ch. region (snd a) \<noteq> region (snd c)) \<or> rnd k > 6 / 10))
    \<and> (fst (pick tc rnd (pre @ [c]) ([], {}, 0)) \<noteq> ch @ [c]
         \<longrightarrow> fst (pick tc rnd (pre @ [c]) ([], {}, 0)) = ch)
    \<and> (tc \<le> int (length ch) \<longrightarrow> pick tc rnd (pre @ post) ([], {}, 0) = (ch, rs, k))
    \<and> pick tc rnd (pre @ post) ([], {}, 0) = pick tc rnd post (ch, rs, k)
    \<and> pick tc rnd [] (ch, rs, k) = (ch, rs, k)"
proof -
  have rs: "rs = (\<lambda>p. region (snd p)) ` set ch"
    using pick_regions [of "([], {}, 0)" tc rnd pre] assms by simp
  have app: "pick tc rnd (pre @ ys) ([], {}, 0) = pick tc rnd ys (ch, rs, k)" for ys
    by (simp add: pick_append assms)
  have mem: "region (snd c) \<notin> rs \<longleftrightarrow> (\<forall>a \<in> set ch. region (snd a) \<noteq> region (snd c))"
    unfolding rs by (force simp: image_iff)
  have one: "pick tc rnd [c] (ch, rs, k)
        = (if int (length ch) < tc \<and> (\<forall>a \<in> set ch. region (snd a) \<noteq> region (snd c))
             then (ch @ [c], insert (region (snd c)) rs, k)
           else if int (length ch) < tc \<and> rnd k > 6 / 10
             then (ch @ [c], insert (region (snd c)) rs, Suc k)
           else if int (length ch) < tc then (ch, rs, Suc k)
           else (ch, rs, k))"
    using mem by simp
  have c2: "pick tc rnd (pre @ [c]) ([], {}, 0)
        = (if int (length ch) < tc \<and> (\<forall>a \<in> set ch. region (snd a) \<noteq> region (snd c))
             then (ch @ [c], insert (region (snd c)) rs, k)
           else if int (length ch) < tc \<and> rnd k > 6 / 10
             then (ch @ [c], insert (region (snd c)) rs, Suc k)
           else if int (length ch) < tc then (ch, rs, Suc k)
           else (ch, rs, k))"
    by (simp only: app one)
  have c3: "fst (pick tc rnd (pre @ [c]) ([], {}, 0)) = ch @ [c]
         \<longleftrightarrow> int (length ch) < tc
             \<and> ((\<forall>a \<in> set ch. region (snd a) \<noteq> region (snd c)) \<or> rnd k > 6 / 10)"
    unfolding c2 by auto
  have c4: "fst (pick tc rnd (pre @ [c]) ([], {}, 0)) \<noteq> ch @ [c]
         \<longrightarrow> fst (pick tc rnd (pre @ [c]) ([], {}, 0)) = ch"
    unfolding c2 by auto
  have c5: "tc \<le> int (length ch) \<longrightarrow> pick tc rnd (pre @ post) ([], {}, 0) = (ch, rs, k)"
    by (simp add: app pick_stopped)
  have c6: "pick tc rnd [] (ch, rs, k) = (ch, rs, k)"
    by simp
  show ?thesis
    by (intro conjI rs c2 c3 c4 c5 app c6)
qed

theorem C3_diverse_pass_witness:
  "pick 2 draws0 [pool ATTRACTIONS [] ''moderate'' ! 0] ([], {}, 0)
     = ([pool ATTRACTIONS [] ''moderate'' ! 0], {''Palamu''}, 0)
   \<and> pick 2 draws0 [pool ATTRACTIONS [] ''moderate'' ! 0, pool ATTRACTIONS [] ''moderate'' ! 6] ([], {}, 0)
     = ([pool ATTRACTIONS [] ''moderate'' ! 0], {''Palamu''}, 1)
   \<and> pick 1 draws0 [pool ATTRACTIONS [] ''moderate'' ! 0, pool ATTRACTIONS [] ''moderate'' ! 1] ([], {}, 0)
     = ([pool ATTRACTIONS [] ''moderate'' ! 0], {''Palamu''}, 0)"
proof -
  let ?a = "pool ATTRACTIONS [] ''moderate'' ! 0"
  let ?b = "pool ATTRACTIONS [] ''moderate'' ! 6"
  let ?c = "pool ATTRACTIONS [] ''moderate'' ! 1"
  have len: "length ATTRACTIONS = 7"
    by (simp add: ATTRACTIONS_def)
  have "region (ATTRACTIONS ! 0) = ''Palamu''" "region (ATTRACTIONS ! 6) = ''Palamu''"
    by (simp_all add: ATTRACTIONS_def)
  then have r: "region (snd ?a) = ''Palamu''" "region (snd ?b) = ''Palamu''"
    by (simp_all add: region_pool len)
  have p2: "pick 2 draws0 [?a] ([], {}, 0) = ([?a], {''Palamu''}, 0)"
    by (simp add: r)
  have p1: "pick 1 draws0 [?a] ([], {}, 0) = ([?a], {''Palamu''}, 0)"
    by (simp add: r)
  have rej: "pick 2 draws0 ([?a] @ [?b]) ([], {}, 0) = ([?a], {''Palamu''}, 1)"
  proof -
    have "pick 2 draws0 ([?a] @ [?b]) ([], {}, 0)
        = (if int (length [?a]) < 2 \<and> (\<forall>a \<in> set [?a]. region (snd a) \<noteq> region (snd ?b))
             then ([?a] @ [?b], insert (region (snd ?b)) {''Palamu''}, 0)
           else if int (length [?a]) < 2 \<and> draws0 0 > 6 / 10
             then ([?a] @ [?b], insert (region (snd ?b)) {''Palamu''}, Suc 0)
           else if int (length [?a]) < 2 then ([?a], {''Palamu''}, Suc 0)
           else ([?a], {''Palamu''}, 0))"
      using C3_diverse_pass [OF p2, of ?b "[]"] by blast
    also have "\<dots> = ([?a], {''Palamu''}, 1)"
      by (simp add: r draws0_def)
    finally show ?thesis .
  qed
  have stop: "pick 1 draws0 ([?a] @ [?c]) ([], {}, 0) = ([?a], {''Palamu''}, 0)"
  proof -
    have "1 \<le> int (length [?a]) \<longrightarrow> pick 1 draws0 ([?a] @ [?c]) ([], {}, 0) = ([?a], {''Palamu''}, 0)"
      using C3_diverse_pass [OF p1, of ?c "[?c]"] by blast
    then show ?thesis by simp
  qed
  have "[?a] @ [?b] = [?a, ?b]" "[?a] @ [?c] = [?a, ?c]"
    by simp_all
  with rej stop p2 show ?thesis
    by (simp only: simp_thms)
qed

subsection \<open>The fallback fill and the number chosen\<close>

lemma fill_distinct:
  "distinct (map fst chosen) \<Longrightarrow>
   distinct (map fst (fill tc pl chosen)) \<and> set (fill tc pl chosen) \<subseteq> set chosen \<union> set pl"
proof (induction tc pl chosen rule: fill.induct)
  case (1 tc chosen)
  then show ?case by simp
next
  case (2 tc item rest chosen)
  then show ?case by (auto simp: includes_obj_def)
qed

lemma fill_length:
  "int (length chosen) \<le> tc \<Longrightarrow> int (length (fill tc pl chosen)) \<le> tc"
  by (induction tc pl chosen rule: fill.induct) auto

lemma fill_exhausts:
  "int (length (fill tc pl chosen)) < tc \<Longrightarrow>
   fst ` set pl \<subseteq> fst ` set (fill tc pl chosen) \<and> set chosen \<subseteq> set (fill tc pl chosen)"
proof (induction tc pl chosen rule: fill.induct)
  case (1 tc chosen)
  then show ?case by simp
next
  case (2 tc item rest chosen)
  then show ?case by (auto simp: includes_obj_def split: if_splits)
qed

lemma targetCount_pos: "1 \<le> targetCount pace days"
  by (simp add: targetCount_def)

lemma chosen_of_distinct:
  "distinct (map fst (chosen_of catalog rnd days tgs pace))
   \<and> set (chosen_of catalog rnd days tgs pace) \<subseteq> set (pool catalog tgs pace)"
proof -
  let ?pl = "ranked catalog tgs pace" and ?tc = "targetCount pace days"
  let ?st = "pick ?tc rnd ?pl ([], {}, 0)"
  have p: "distinct (map fst (fst ?st)) \<and> set (fst ?st) \<subseteq> set ?pl"
    using pick_distinct [of "([], {}, 0)" ?pl ?tc rnd] ranked_distinct [of catalog tgs pace]
    by simp
  then show ?thesis
    using fill_distinct [of "fst ?st" ?tc ?pl]
    by (auto simp: chosen_of_def Let_def ranked_set)
qed

lemma chosen_of_length:
  "int (length (chosen_of catalog rnd days tgs pace))
     = min (targetCount pace days) (int (length catalog))"
proof -
  let ?pl = "ranked catalog tgs pace" and ?tc = "targetCount pace days"
  let ?st = "pick ?tc rnd ?pl ([], {}, 0)"
  let ?ch = "chosen_of catalog rnd days tgs pace"
  have ch: "?ch = fill ?tc ?pl (fst ?st)"
    by (simp add: chosen_of_def Let_def)
  have d: "distinct (map fst ?ch)" and sub: "set ?ch \<subseteq> set ?pl"
    using chosen_of_distinct [of catalog rnd days tgs pace] by (simp_all add: ranked_set)
  have "int (length (fst ?st)) \<le> ?tc"
    using pick_length [of "([], {}, 0)" ?tc rnd ?pl] targetCount_pos [of pace days] by simp
  then have le: "int (length ?ch) \<le> ?tc"
    unfolding ch by (rule fill_length)
  have card_ch: "length ?ch = card (fst ` set ?ch)"
    using d by (metis distinct_card length_map set_map)
  have card_pl: "length ?pl = card (fst ` set ?pl)"
    using ranked_distinct [of catalog tgs pace] by (metis distinct_card length_map set_map)
  have "fst ` set ?ch \<subseteq> fst ` set ?pl"
    using sub by auto
  then have le_pl: "length ?ch \<le> length ?pl"
    unfolding card_ch card_pl by (intro card_mono) simp_all
  show ?thesis
  proof (cases "int (length ?ch) < ?tc")
    case True
    then have "fst ` set ?pl \<subseteq> fst ` set ?ch"
      unfolding ch using fill_exhausts by blast
    with \<open>fst ` set ?ch \<subseteq> fst ` set ?pl\<close> have "fst ` set ?ch = fst ` set ?pl"
      by auto
    then have "length ?ch = length ?pl"
      by (simp add: card_ch card_pl)
    with True show ?thesis
      by (simp add: ranked_length)
  next
    case False
    with le have "int (length ?ch) = ?tc" by simp
    with le_pl show ?thesis
      by (simp add: ranked_length)
  qed
qed

subsection \<open>Slices and the day loop\<close>

lemma slice_take_drop:
  "0 \<le> i \<Longrightarrow> 0 \<le> n \<Longrightarrow> slice xs i (i + n) = take (nat n) (drop (nat i) xs)"
  unfolding slice_def Let_def
  by (cases "i \<le> int (length xs)"; cases "i + n \<le> int (length xs)") (simp_all add: min_def)

lemma daySlots_pos: "1 \<le> daySlots tc days"
  by (simp add: daySlots_def)

lemma build_unfold:
  "d \<le> days \<Longrightarrow>
   build days tc chosen d idx plan
     = build days tc chosen (d + 1) (idx + daySlots tc days)
         (plan @ [\<lparr>day = d, items = slice chosen idx (idx + daySlots tc days)\<rparr>])"
  by (subst build.simps) (simp add: Let_def daySlots_def)

lemma build_done: "\<not> d \<le> days \<Longrightarrow> build days tc chosen d idx plan = plan"
  by (subst build.simps) simp

lemma build_induct [consumes 0, case_names step stop]:
  assumes "\<And>d idx plan. d \<le> days \<Longrightarrow>
      P (d + 1) (idx + daySlots tc days)
        (plan @ [\<lparr>day = d, items = slice chosen idx (idx + daySlots tc days)\<rparr>]) \<Longrightarrow>
      P d idx plan"
    and "\<And>d idx plan. \<not> d \<le> days \<Longrightarrow> P d idx plan"
  shows "P d idx plan"
  using assms
proof (induction days tc chosen d idx plan rule: build.induct)
  case (1 days tc chosen d idx plan)
  show ?case
  proof (cases "d \<le> days")
    case True
    have "P (d + 1) (idx + daySlots tc days)
        (plan @ [\<lparr>day = d, items = slice chosen idx (idx + daySlots tc days)\<rparr>])"
      unfolding daySlots_def by (rule "1.IH" [OF True refl refl "1.prems"])
    with True show ?thesis by (rule "1.prems"(1))
  next
    case False
    then show ?thesis by (rule "1.prems"(2))
  qed
qed

lemma build_length:
  "length (build days tc chosen d idx plan) = length plan + nat (days + 1 - d)"
proof (induction d idx plan rule: build_induct [of days _ tc chosen])
  case (step d idx plan)
  then show ?case by (simp add: build_unfold [of d days])
next
  case (stop d idx plan)
  then show ?case by (simp add: build_done)
qed

lemma build_nth_old:
  "i < length plan \<Longrightarrow> build days tc chosen d idx plan ! i = plan ! i"
proof (induction d idx plan rule: build_induct [of days _ tc chosen])
  case (step d idx plan)
  then show ?case by (simp add: build_unfold [of d days] nth_append)
next
  case (stop d idx plan)
  then show ?case by (simp add: build_done)
qed

lemma build_nth_new:
  "0 \<le> idx \<Longrightarrow> j < nat (days + 1 - d) \<Longrightarrow>
   build days tc chosen d idx plan ! (length plan + j)
     = \<lparr>day = d + int j,
        items = take (nat (daySlots tc days)) (drop (nat idx + j * nat (daySlots tc days)) chosen)\<rparr>"
proof (induction d idx plan arbitrary: j rule: build_induct [of days _ tc chosen])
  case (step d idx plan)
  have ds: "1 \<le> daySlots tc days" by (rule daySlots_pos)
  let ?ds = "daySlots tc days"
  let ?p = "\<lparr>day = d, items = slice chosen idx (idx + ?ds)\<rparr>"
  show ?case
  proof (cases j)
    case 0
    have "build days tc chosen (d + 1) (idx + ?ds) (plan @ [?p]) ! length plan = (plan @ [?p]) ! length plan"
      by (rule build_nth_old) simp
    with 0 step.prems(1) step.hyps ds show ?thesis
      by (simp add: build_unfold [of d days] slice_take_drop)
  next
    case (Suc j')
    have "build days tc chosen (d + 1) (idx + ?ds) (plan @ [?p]) ! (length (plan @ [?p]) + j')
       = \<lparr>day = d + 1 + int j', items = take (nat ?ds) (drop (nat (idx + ?ds) + j' * nat ?ds) chosen)\<rparr>"
      using step.prems ds Suc by (intro step.IH) simp_all
    moreover have "nat (idx + ?ds) + j' * nat ?ds = nat idx + Suc j' * nat ?ds"
      using step.prems(1) ds by (simp add: nat_add_distrib)
    ultimately show ?thesis
      using Suc step.hyps by (simp add: build_unfold [of d days])
  qed
next
  case (stop d idx plan)
  then show ?case by simp
qed

lemma build_concat:
  "0 \<le> idx \<Longrightarrow>
   concat (map items (build days tc chosen d idx plan))
     = concat (map items plan)
       @ take (nat (days + 1 - d) * nat (daySlots tc days)) (drop (nat idx) chosen)"
proof (induction d idx plan rule: build_induct [of days _ tc chosen])
  case (step d idx plan)
  have ds: "1 \<le> daySlots tc days" by (rule daySlots_pos)
  let ?ds = "daySlots tc days"
  let ?p = "\<lparr>day = d, items = slice chosen idx (idx + ?ds)\<rparr>"
  have "concat (map items (build days tc chosen (d + 1) (idx + ?ds) (plan @ [?p])))
        = concat (map items (plan @ [?p]))
          @ take (nat (days + 1 - (d + 1)) * nat ?ds) (drop (nat (idx + ?ds)) chosen)"
    using step.prems ds by (intro step.IH) simp
  moreover have "nat (days + 1 - d) * nat ?ds = nat ?ds + nat (days + 1 - (d + 1)) * nat ?ds"
  proof -
    have "nat (days + 1 - d) = Suc (nat (days + 1 - (d + 1)))"
      using step.hyps by simp
    then show ?thesis by simp
  qed
  moreover have "drop (nat (idx + ?ds)) chosen = drop (nat ?ds) (drop (nat idx) chosen)"
    using step.prems ds by (simp add: nat_add_distrib add.commute)
  ultimately show ?case
    using step.hyps step.prems ds
    by (simp add: build_unfold [of d days] slice_take_drop take_add)
next
  case (stop d idx plan)
  then show ?case by (simp add: build_done)
qed

lemma plan_concat:
  "concat (map items (simulateItinerary catalog rnd days tgs pace))
     = take (nat days * nat (daySlots (targetCount pace days) days)) (chosen_of catalog rnd days tgs pace)"
  using build_concat [of 0 days "targetCount pace days" "chosen_of catalog rnd days tgs pace" 1 "[]"]
  by (simp add: simulateItinerary_def)

lemma plan_length: "length (simulateItinerary catalog rnd days tgs pace) = nat days"
  by (simp add: simulateItinerary_def build_length)

lemma plan_nth:
  "j < nat days \<Longrightarrow>
   simulateItinerary catalog rnd days tgs pace ! j
     = \<lparr>day = int j + 1,
        items = take (nat (daySlots (targetCount pace days) days))
                  (drop (j * nat (daySlots (targetCount pace days) days))
                    (chosen_of catalog rnd days tgs pace))\<rparr>"
  using build_nth_new [of 0 j days 1 "targetCount pace days" "chosen_of catalog rnd days tgs pace" "[]"]
  by (simp add: simulateItinerary_def)

lemma total_items:
  assumes "0 \<le> days"
  shows "int (length (concat (map items (simulateItinerary catalog rnd days tgs pace))))
     = min (days * daySlots (targetCount pace days) days)
           (min (targetCount pace days) (int (length catalog)))"
proof -
  let ?ds = "daySlots (targetCount pace days) days"
  let ?ch = "chosen_of catalog rnd days tgs pace"
  have ds: "1 \<le> ?ds" by (rule daySlots_pos)
  have n: "int (nat days * nat ?ds) = days * ?ds"
    using assms ds by (simp add: nat_mult_distrib)
  have "int (length (concat (map items (simulateItinerary catalog rnd days tgs pace))))
      = int (min (length ?ch) (nat days * nat ?ds))"
    by (simp add: plan_concat)
  also have "\<dots> = min (int (length ?ch)) (int (nat days * nat ?ds))"
    by (rule of_nat_min)
  also have "\<dots> = min (min (targetCount pace days) (int (length catalog))) (days * ?ds)"
    by (simp only: n chosen_of_length)
  finally show ?thesis
    by (simp only: min.commute)
qed

text \<open>
  C6. \<^verbatim>\<open>chosen\<close>, after the diversity pass and the fallback fill, holds no object twice;
  when the ids of the catalog are distinct, no id occurs twice in \<^verbatim>\<open>chosen\<close>, and none
  occurs twice among the items of all the days of the returned plan.
\<close>

theorem C6_no_duplicates:
  "distinct (map fst (chosen_of catalog rnd days tgs pace))
   \<and> (distinct (map aid catalog) \<longrightarrow>
        distinct (map (\<lambda>p. aid (snd p)) (chosen_of catalog rnd days tgs pace))
        \<and> distinct (map (\<lambda>p. aid (snd p))
             (concat (map items (simulateItinerary catalog rnd days tgs pace)))))"
proof -
  let ?ch = "chosen_of catalog rnd days tgs pace"
  have d: "distinct (map fst ?ch)" and sub: "set ?ch \<subseteq> set (pool catalog tgs pace)"
    using chosen_of_distinct [of catalog rnd days tgs pace] by simp_all
  have ids: "distinct (map (\<lambda>p. aid (snd p)) ?ch)" if "distinct (map aid catalog)"
  proof -
    have "distinct (map (\<lambda>p. aid (snd p)) (pool catalog tgs pace))"
      using that by (simp add: map_aid_pool)
    then have "inj_on (\<lambda>p. aid (snd p)) (set (pool catalog tgs pace))"
      by (simp add: distinct_map)
    then have "inj_on (\<lambda>p. aid (snd p)) (set ?ch)"
      using sub by (rule inj_on_subset)
    moreover have "distinct ?ch"
      using d by (simp add: distinct_map)
    ultimately show ?thesis
      by (simp add: distinct_map)
  qed
  have "distinct (map (\<lambda>p. aid (snd p)) (take n ?ch))" if "distinct (map aid catalog)" for n
    using ids [OF that] by (simp add: take_map [symmetric])
  with d ids show ?thesis
    by (simp add: plan_concat)
qed

theorem C6_no_duplicates_witness:
  "distinct (map aid ATTRACTIONS)
   \<and> distinct (map (\<lambda>p. aid (snd p)) (chosen_of ATTRACTIONS draws0 3 [''nature''] ''busy''))
   \<and> distinct (map (\<lambda>p. aid (snd p))
        (concat (map items (simulateItinerary ATTRACTIONS draws0 3 [''nature''] ''busy''))))"
proof -
  have "distinct (map aid ATTRACTIONS)"
    by (simp add: ATTRACTIONS_def)
  then show ?thesis
    using C6_no_duplicates [of ATTRACTIONS draws0 3 "[''nature'']" "''busy''"] by simp
qed

text \<open>
  C8. For \<^verbatim>\<open>days\<close> at least 1 the plan has exactly \<^verbatim>\<open>days\<close> entries; the entry at
  position \<open>j\<close> (from 0) has the day number \<open>j + 1\<close> and holds the \<^verbatim>\<open>daySlots\<close> objects
  of \<^verbatim>\<open>chosen\<close> from position \<open>j * daySlots\<close> on, which are none when \<^verbatim>\<open>chosen\<close> has
  no more than \<open>j * daySlots\<close> objects. With an empty catalog every day has no items.
\<close>

theorem C8_one_dayplan_per_day:
  assumes "1 \<le> days"
  shows "length (simulateItinerary catalog rnd days tgs pace) = nat days
    \<and> (\<forall>j < nat days.
          day (simulateItinerary catalog rnd days tgs pace ! j) = int j + 1
          \<and> items (simulateItinerary catalog rnd days tgs pace ! j)
              = take (nat (daySlots (targetCount pace days) days))
                  (drop (j * nat (daySlots (targetCount pace days) days))
                    (chosen_of catalog rnd days tgs pace))
          \<and> (length (chosen_of catalog rnd days tgs pace)
                \<le> j * nat (daySlots (targetCount pace days) days)
              \<longrightarrow> items (simulateItinerary catalog rnd days tgs pace ! j) = []))
    \<and> (catalog = [] \<longrightarrow>
          (\<forall>p \<in> set (simulateItinerary catalog rnd days tgs pace). items p = []))"
proof -
  let ?plan = "simulateItinerary catalog rnd days tgs pace"
  have empty: "items p = []" if "catalog = []" and "p \<in> set ?plan" for p
  proof -
    from that(2) obtain j where j: "j < nat days" and p: "p = ?plan ! j"
      by (auto simp: in_set_conv_nth plan_length)
    have "chosen_of catalog rnd days tgs pace = []"
      using chosen_of_length [of catalog rnd days tgs pace] that(1) targetCount_pos [of pace days]
      by simp
    with j p show ?thesis
      by (simp add: plan_nth)
  qed
  show ?thesis
    using empty by (simp add: plan_length plan_nth)
qed

theorem C8_one_dayplan_per_day_witness:
  "length (simulateItinerary [] draws0 2 [] ''busy'') = 2
   \<and> map day (simulateItinerary [] draws0 2 [] ''busy'') = [1, 2]
   \<and> map items (simulateItinerary [] draws0 2 [] ''busy'') = [[], []]"
proof -
  have l: "length (simulateItinerary [] draws0 2 [] ''busy'') = 2"
    and n: "\<forall>j < nat 2. day (simulateItinerary [] draws0 2 [] ''busy'' ! j) = int j + 1"
    and e: "\<forall>p \<in> set (simulateItinerary [] draws0 2 [] ''busy''). items p = []"
    using C8_one_dayplan_per_day [of 2 "[]" draws0 "[]" "''busy''"] by simp_all
  from l obtain p q where pq: "simulateItinerary [] draws0 2 [] ''busy'' = [p, q]"
    by (auto simp: length_Suc_conv numeral_2_eq_2)
  from n pq have "day p = 1 \<and> day q = 2"
    by (auto simp: numeral_2_eq_2 less_Suc_eq)
  with e pq l show ?thesis by simp
qed

lemma tc3: "targetCount ''relaxed'' 3 = 4"
  by (simp add: targetCount_def perDay_def js_round_def)

lemma ds3: "daySlots 4 3 = 1"
  by (simp add: daySlots_def js_round_def)

lemma chosen_relaxed3:
  "map (\<lambda>p. aid (snd p)) (chosen_of ATTRACTIONS rnd 3 [] ''relaxed'') = [1, 2, 3, 4]"
  by (simp add: chosen_of_def tc3 ranked_def pool_def ATTRACTIONS_def enumerate_eq_zip with_score_def
      score_of_def attraction.defs scored.defs by_score_def upt_rec includes_obj_def)

lemma list3: "length xs = 3 \<Longrightarrow> xs = [xs ! 0, xs ! 1, xs ! 2]"
  by (auto simp: length_Suc_conv numeral_3_eq_3)

text \<open>
  C2. The number of items in the plan is not always the number of objects in
  \<^verbatim>\<open>chosen\<close>. On the sample catalog with 3 days, no tags and the pace \<^verbatim>\<open>relaxed\<close>,
  whatever the draws: \<^verbatim>\<open>targetCount\<close> is 4 and \<^verbatim>\<open>chosen\<close> holds the attractions 1, 2, 3
  and 4, the minimum of \<^verbatim>\<open>targetCount\<close> and the catalog size; \<^verbatim>\<open>daySlots\<close> is
  \<^verbatim>\<open>Math.round(4 / 3)\<close>, that is 1, so the three days hold the attractions 1, 2 and 3,
  and attraction 4 is in no day. In general the plan holds the minimum of
  \<open>days * daySlots\<close> and the number chosen (lemma \<open>total_items\<close>).
\<close>

theorem C2_chosen_item_dropped:
  "map (\<lambda>p. aid (snd p)) (chosen_of ATTRACTIONS rnd 3 [] ''relaxed'') = [1, 2, 3, 4]
   \<and> map (\<lambda>p. (day p, map (\<lambda>p. aid (snd p)) (items p)))
         (simulateItinerary ATTRACTIONS rnd 3 [] ''relaxed'')
       = [(1, [1]), (2, [2]), (3, [3])]
   \<and> min (targetCount ''relaxed'' 3) (int (length ATTRACTIONS)) = 4
   \<and> length (concat (map items (simulateItinerary ATTRACTIONS rnd 3 [] ''relaxed''))) = 3"
proof -
  let ?plan = "simulateItinerary ATTRACTIONS rnd 3 [] ''relaxed''"
  let ?ch = "chosen_of ATTRACTIONS rnd 3 [] ''relaxed''"
  have nth: "?plan ! j = \<lparr>day = int j + 1, items = take 1 (drop j ?ch)\<rparr>" if "j < 3" for j
    using that plan_nth [of j 3 ATTRACTIONS rnd "[]" "''relaxed''"] by (simp add: tc3 ds3)
  have "?plan = [?plan ! 0, ?plan ! 1, ?plan ! 2]"
    by (rule list3) (simp add: plan_length)
  then have plan: "?plan = [\<lparr>day = 1, items = take 1 ?ch\<rparr>,
      \<lparr>day = 2, items = take 1 (drop 1 ?ch)\<rparr>, \<lparr>day = 3, items = take 1 (drop 2 ?ch)\<rparr>]"
    by (simp add: nth)
  have m: "map (\<lambda>p. aid (snd p)) (take 1 (drop j ?ch)) = take 1 (drop j [1, 2, 3, 4])" for j
    by (simp only: take_map [symmetric] drop_map [symmetric] chosen_relaxed3)
  have days: "map (\<lambda>p. (day p, map (\<lambda>p. aid (snd p)) (items p))) ?plan = [(1, [1]), (2, [2]), (3, [3])]"
    using m [of 0] m [of 1] m [of 2] by (simp add: plan)
  have len: "length ATTRACTIONS = 7"
    by (simp add: ATTRACTIONS_def)
  have total: "length (concat (map items ?plan)) = 3"
    using total_items [of 3 ATTRACTIONS rnd "[]" "''relaxed''"]
    by (simp add: tc3 ds3 len)
  show ?thesis
    using days total by (simp add: chosen_relaxed3 tc3 len)
qed

text \<open>
  C4. \<^verbatim>\<open>simulateItinerary\<close> does not clamp \<^verbatim>\<open>days\<close>: for \<^verbatim>\<open>days\<close> at most 0 the day
  loop is not entered and the plan is empty, whereas for 1 day the plan has one entry. (The
  click handler replaces a day count that is 0 or not a number by 1 before the call.)
\<close>

theorem C4_days_not_clamped:
  "days \<le> 0 \<Longrightarrow>
     simulateItinerary catalog rnd days tgs pace = []
     \<and> length (simulateItinerary catalog rnd 1 tgs pace) = 1"
  using plan_length [of catalog rnd days tgs pace] plan_length [of catalog rnd 1 tgs pace]
  by simp

theorem C4_days_not_clamped_witness:
  "(0::int) \<le> 0 \<and> simulateItinerary ATTRACTIONS draws0 0 [''nature''] ''busy'' = []
   \<and> length (simulateItinerary ATTRACTIONS draws0 1 [''nature''] ''busy'') = 1"
  using C4_days_not_clamped [of 0 ATTRACTIONS draws0 "[''nature'']" "''busy''"] by simp

text \<open>The plan for 0 days differs from the plan for 1 day.\<close>

theorem C4_counterexample:
  "simulateItinerary ATTRACTIONS draws0 0 [] ''moderate''
     \<noteq> simulateItinerary ATTRACTIONS draws0 1 [] ''moderate''"
proof
  assume "simulateItinerary ATTRACTIONS draws0 0 [] ''moderate''
     = simulateItinerary ATTRACTIONS draws0 1 [] ''moderate''"
  then have "length (simulateItinerary ATTRACTIONS draws0 0 [] ''moderate'')
     = length (simulateItinerary ATTRACTIONS draws0 1 [] ''moderate'')"
    by simp
  then show False
    by (simp add: plan_length)
qed

subsection \<open>The responder\<close>








text \<open>
  C10. The reply text handed to \<^verbatim>\<open>speakText\<close> is a function of the utterance alone: it
  is the same for any two locales, it is the value of \<open>reply_of\<close>, and it is always one of
  the six reply texts. The locale appears in the page markup around the reply only.
\<close>

theorem C10_reply_pure:
  "fst (spoken (assistantRespond u l1)) = fst (spoken (assistantRespond u l2))
   \<and> fst (spoken (assistantRespond u l)) = reply_of u
   \<and> snd (spoken (assistantRespond u l)) = l
   \<and> innerHTML (assistantRespond u l) = ''<strong>Assistant ('' @ l @ ''):</strong> '' @ reply_of u
   \<and> reply_of u \<in> {reply_itinerary, reply_attractions, reply_greeting, reply_farewell,
        reply_suggest, reply_fallback}"
proof -
  have sp: "spoken (assistantRespond u l') = (reply_of u, l')" for l'
    by (simp add: assistantRespond_def Let_def)
  have html: "innerHTML (assistantRespond u l) = ''<strong>Assistant ('' @ l @ ''):</strong> '' @ reply_of u"
    by (simp add: assistantRespond_def Let_def)
  have six: "reply_of u \<in> {reply_itinerary, reply_attractions, reply_greeting, reply_farewell,
        reply_suggest, reply_fallback}"
    unfolding reply_of_def Let_def by simp
  show ?thesis
    using html six by (simp add: sp)
qed

end
